theory Spec2Isabelle
  imports Complex_Main "HOL-Library.Monad_Syntax"
begin

section \<open>The loot pool model (src/assets/pools.ts)\<close>

text \<open>
  A JavaScript \<open>number\<close> is modelled as a \<open>real\<close>: sums, products and comparisons are
  exact. The one place where the program can leave the finite numbers, the division in
  \<open>toPercentage\<close>, has its own result type below.
\<close>

record LootEntry =
  name :: string
  weight :: real

record LootPool =
  poolName :: string
  entries :: "LootEntry list"

definition rarityPool :: LootPool where
  "rarityPool =
     \<lparr> poolName = ''rarity'',
       entries =
         [ \<lparr> name = ''common'', weight = 6000 \<rparr>,
           \<lparr> name = ''uncommon'', weight = 2500 \<rparr>,
           \<lparr> name = ''rare'', weight = 1000 \<rparr>,
           \<lparr> name = ''epic'', weight = 400 \<rparr>,
           \<lparr> name = ''legendary'', weight = 90 \<rparr>,
           \<lparr> name = ''mythic'', weight = 10 \<rparr> ] \<rparr>"

definition lootConfig :: "LootPool list" where
  "lootConfig = [rarityPool]"


section \<open>Numeric helpers\<close>

text \<open>\<open>Math.round\<close>: the nearest integer, a tie going towards plus infinity.\<close>

definition Math_round :: "real \<Rightarrow> real" where
  "Math_round x = of_int \<lfloor>x + 1 / 2\<rfloor>"

text \<open>
  \<open>randomInt(min, max)\<close> of src/lib/random.ts; \<open>r\<close> is the value that its call of
  \<open>Math.random()\<close> returns.
\<close>

definition randomInt :: "real \<Rightarrow> real \<Rightarrow> real \<Rightarrow> real" where
  "randomInt mn mx r =
     (let minCeil = \<lceil>mn\<rceil>;
          maxFloor = \<lfloor>mx\<rfloor>
      in of_int \<lfloor>r * of_int (maxFloor - minCeil + 1)\<rfloor> + of_int minCeil)"

text \<open>
  \<open>x.toFixed(2)\<close> read back by \<open>Number.parseFloat\<close>, for a finite \<open>x\<close>: the multiple of
  1/100 nearest to \<open>x\<close>, the larger one on a tie; a negative \<open>x\<close> is negated first.
\<close>

definition toFixed2 :: "real \<Rightarrow> real" where
  "toFixed2 x =
     (if x < 0 then - (of_int \<lfloor>(- x) * 100 + 1 / 2\<rfloor> / 100)
      else of_int \<lfloor>x * 100 + 1 / 2\<rfloor> / 100)"

text \<open>
  The result of \<open>toPercentage\<close>: a finite number, or one of the infinities that a
  division of a non-zero value by zero produces.
\<close>

datatype number = Num real | PosInfinity | NegInfinity

text \<open>\<open>toPercentage\<close> of src/App.tsx.\<close>

definition toPercentage :: "real \<Rightarrow> real \<Rightarrow> number" where
  "toPercentage v tot =
     (if v = 0 then Num (toFixed2 0)
      else if tot = 0 then (if 0 < v then PosInfinity else NegInfinity)
      else Num (toFixed2 ((v / tot) * 100)))"


section \<open>The chest-aware roller (hooks/useLoot.tsx, the version with chest types)\<close>

definition POOL_BASE_WEIGHT :: real where
  "POOL_BASE_WEIGHT = 10000"

definition MAX_ROLL_COUNT :: real where
  "MAX_ROLL_COUNT = 10"

datatype ChestType = normal | rare | epic

record ChestConfig =
  excludeRarities :: "string list"
  maxRolls :: real
  weightOverrides :: "(string \<times> real) list option"

fun CHEST_CONFIGS :: "ChestType \<Rightarrow> ChestConfig" where
  "CHEST_CONFIGS normal =
     \<lparr> excludeRarities = [], maxRolls = MAX_ROLL_COUNT, weightOverrides = None \<rparr>"
| "CHEST_CONFIGS rare =
     \<lparr> excludeRarities = [''common'', ''uncommon''],
       maxRolls = 3,
       weightOverrides =
         Some [(''rare'', 5500), (''epic'', 3000), (''legendary'', 1400), (''mythic'', 100)] \<rparr>"
| "CHEST_CONFIGS epic =
     \<lparr> excludeRarities = [''common'', ''uncommon'', ''rare''],
       maxRolls = 2,
       weightOverrides = Some [(''epic'', 6500), (''legendary'', 3200), (''mythic'', 300)] \<rparr>"

text \<open>
  The errors the roller can throw: the \<open>Error\<close> of the pool sum check, carrying the pool
  sum and the base weight of its message, and the \<open>RangeError\<close> of \<open>new Array(n)\<close> for an
  \<open>n\<close> that is not an array length.
\<close>

datatype error = Error real real | RangeError

text \<open>
  The roller: the pool it was made from and the mutable cell \<open>totalRollsRef.current\<close>.
\<close>

record roller =
  pool :: LootPool
  totalRollsRef :: nat

text \<open>The memoised \<open>poolSum\<close>: a left-to-right \<open>reduce\<close> from 0.\<close>

definition poolSum :: "LootPool \<Rightarrow> real" where
  "poolSum p = foldl (\<lambda>acc entry. acc + weight entry) 0 (entries p)"

text \<open>Construction: the pool sum check throws, otherwise the counter starts at 0.\<close>

definition useLoot :: "LootPool \<Rightarrow> error + roller" where
  "useLoot p =
     (if poolSum p > POOL_BASE_WEIGHT then Inl (Error (poolSum p) POOL_BASE_WEIGHT)
      else Inr \<lparr> pool = p, totalRollsRef = 0 \<rparr>)"

definition toPercentageChance :: "LootPool \<Rightarrow> real \<Rightarrow> number" where
  "toPercentageChance p w = toPercentage w (poolSum p)"

text \<open>
  \<open>getLootChances\<close>: the table starts empty and every entry, in order, assigns the key
  of its name; a later entry of the same name overwrites the earlier one.
\<close>

definition getLootChances :: "LootPool \<Rightarrow> (string \<rightharpoonup> number)" where
  "getLootChances p =
     foldl (\<lambda>table entry. table(name entry \<mapsto> toPercentageChance p (weight entry)))
       Map.empty (entries p)"

definition RARE_PLUS_NAMES :: "string list" where
  "RARE_PLUS_NAMES = [''rare'', ''epic'', ''legendary'', ''mythic'']"

text \<open>The three list transformations of \<open>getLoot\<close>; each builds new entries.\<close>

definition filterEntries :: "ChestConfig \<Rightarrow> LootEntry list \<Rightarrow> LootEntry list" where
  "filterEntries config es = filter (\<lambda>e. name e \<notin> set (excludeRarities config)) es"

definition overrideEntries :: "ChestConfig \<Rightarrow> LootEntry list \<Rightarrow> LootEntry list" where
  "overrideEntries config es =
     (case weightOverrides config of
        Some ov \<Rightarrow>
          map (\<lambda>e. e\<lparr> weight := (case map_of ov (name e) of Some w \<Rightarrow> w | None \<Rightarrow> weight e) \<rparr>) es
      | None \<Rightarrow> es)"

definition boostEntries :: "real \<Rightarrow> LootEntry list \<Rightarrow> LootEntry list" where
  "boostEntries rarityBoost es =
     (if rarityBoost > 1
      then map (\<lambda>e. e\<lparr> weight :=
                  (if name e \<in> set RARE_PLUS_NAMES then Math_round (weight e * rarityBoost)
                   else weight e) \<rparr>) es
      else es)"

text \<open>The \<open>for\<close> loop of \<open>getLoot\<close>: \<open>current\<close> is the running total before the entry.\<close>

fun walk :: "real \<Rightarrow> real \<Rightarrow> LootEntry list \<Rightarrow> string option" where
  "walk roll current [] = None"
| "walk roll current (entry # rest) =
     (if roll \<le> current + weight entry then Some (name entry)
      else walk roll (current + weight entry) rest)"

text \<open>
  \<open>getLoot(chestType, rarityBoost)\<close>; \<open>r\<close> is the value that \<open>Math.random()\<close> returns if
  the draw gets as far as calling it. The result is the returned name (\<open>None\<close> for
  \<open>null\<close>) and the roller afterwards.
\<close>

definition getLoot :: "roller \<Rightarrow> ChestType \<Rightarrow> real \<Rightarrow> real \<Rightarrow> string option \<times> roller" where
  "getLoot st chestType rarityBoost r =
     (if entries (pool st) = [] then (None, st)
      else
        let config = CHEST_CONFIGS chestType;
            filteredEntries = filterEntries config (entries (pool st))
        in if filteredEntries = [] then (None, st)
           else
             let es = boostEntries rarityBoost (overrideEntries config filteredEntries);
                 sum = foldl (\<lambda>acc e. acc + weight e) 0 es
             in if sum = 0 then (None, st)
                else
                  let roll = r * sum;
                      st' = st\<lparr> totalRollsRef := totalRollsRef st + 1 \<rparr>
                  in (walk roll 0 es, st'))"

text \<open>
  The options of \<open>getLoots\<close>; every field may be absent, and so may the whole object.
\<close>

record options =
  opt_max :: "real option"
  opt_chestType :: "ChestType option"
  opt_multiplier :: "real option"
  opt_rarityBoost :: "real option"

text \<open>
  \<open>new Array(n)\<close> succeeds exactly for an integer \<open>n\<close> with \<open>0 \<le> n < 2^32\<close>.
\<close>

definition validArrayLength :: "real \<Rightarrow> bool" where
  "validArrayLength n \<longleftrightarrow> of_int \<lfloor>n\<rfloor> = n \<and> 0 \<le> n \<and> n < 2 ^ 32"

text \<open>
  \<open>n\<close> calls of \<open>getLoot\<close> one after the other (the \<open>map\<close> over the fresh array); the call
  at position \<open>i\<close> draws \<open>rs i\<close>.
\<close>

fun drawMany :: "nat \<Rightarrow> nat \<Rightarrow> (nat \<Rightarrow> real) \<Rightarrow> ChestType \<Rightarrow> real \<Rightarrow> roller
    \<Rightarrow> string option list \<times> roller" where
  "drawMany 0 i rs chestType rarityBoost st = ([], st)"
| "drawMany (Suc n) i rs chestType rarityBoost st =
     (let (item, st') = getLoot st chestType rarityBoost (rs i);
          (items, st'') = drawMany n (Suc i) rs chestType rarityBoost st'
      in (item # items, st''))"

text \<open>
  \<open>getLoots(options)\<close>; \<open>r0\<close> is the value \<open>Math.random()\<close> returns inside \<open>randomInt\<close>.
\<close>

definition getLoots :: "roller \<Rightarrow> options option \<Rightarrow> real \<Rightarrow> (nat \<Rightarrow> real)
    \<Rightarrow> error + (string list \<times> roller)" where
  "getLoots st opts r0 rs =
     (let mx = (case opts of None \<Rightarrow> None | Some os \<Rightarrow> opt_max os);
          chestType = (case opts of None \<Rightarrow> normal
                       | Some os \<Rightarrow> (case opt_chestType os of None \<Rightarrow> normal | Some c \<Rightarrow> c));
          multiplier = (case opts of None \<Rightarrow> 1
                        | Some os \<Rightarrow> (case opt_multiplier os of None \<Rightarrow> 1 | Some m \<Rightarrow> m));
          rarityBoost = (case opts of None \<Rightarrow> 1
                         | Some os \<Rightarrow> (case opt_rarityBoost os of None \<Rightarrow> 1 | Some b \<Rightarrow> b));
          config = CHEST_CONFIGS chestType;
          maxRolls = (case mx of Some m \<Rightarrow> m | None \<Rightarrow> maxRolls config)
      in if maxRolls \<le> 0 then Inr ([], st)
         else
           let baseCount = randomInt 1 maxRolls r0;
               reroll = min (Math_round (baseCount * multiplier)) (maxRolls * 2)
           in if \<not> validArrayLength reroll then Inl RangeError
              else
                let (items, st') = drawMany (nat \<lfloor>reroll\<rfloor>) 0 rs chestType rarityBoost st
                in Inr (map the (filter (\<lambda>item. item \<noteq> None) items), st'))"



section \<open>The simple roller (src/hooks/useLoot.tsx)\<close>

definition MAX_ROLL_COUNT_simple :: real where
  "MAX_ROLL_COUNT_simple = 16"

definition getLootChances_simple :: "LootPool \<Rightarrow> (string \<rightharpoonup> number)" where
  "getLootChances_simple p =
     foldl (\<lambda>table entry. table(name entry \<mapsto> toPercentage (weight entry) (poolSum p)))
       Map.empty (entries p)"

definition getLoot_simple :: "roller \<Rightarrow> real \<Rightarrow> string option \<times> roller" where
  "getLoot_simple st r =
     (if entries (pool st) = [] then (None, st)
      else if poolSum (pool st) = 0 then (None, st)
      else
        let roll = r * poolSum (pool st);
            st' = st\<lparr> totalRollsRef := totalRollsRef st + 1 \<rparr>
        in (walk roll 0 (entries (pool st)), st'))"


section \<open>Notions used to state the properties\<close>

text \<open>
  The entries a draw walks over: the pool's entries after the chest's filter, its weight
  overrides and the rarity boost, and their total weight.
\<close>

definition adjustedEntries :: "LootPool \<Rightarrow> ChestType \<Rightarrow> real \<Rightarrow> LootEntry list" where
  "adjustedEntries p chestType rarityBoost =
     boostEntries rarityBoost
       (overrideEntries (CHEST_CONFIGS chestType)
          (filterEntries (CHEST_CONFIGS chestType) (entries p)))"

definition localSum :: "LootPool \<Rightarrow> ChestType \<Rightarrow> real \<Rightarrow> real" where
  "localSum p chestType rarityBoost =
     sum_list (map weight (adjustedEntries p chestType rarityBoost))"



text \<open>
  The options of a batch call with the defaults filled in, and the number of draws the
  batch performs: \<open>min(round(baseCount * multiplier), maxRolls * 2)\<close>.
\<close>

definition chestTypeOf :: "options option \<Rightarrow> ChestType" where
  "chestTypeOf opts =
     (case opts of None \<Rightarrow> normal
      | Some os \<Rightarrow> (case opt_chestType os of None \<Rightarrow> normal | Some c \<Rightarrow> c))"

definition multiplierOf :: "options option \<Rightarrow> real" where
  "multiplierOf opts =
     (case opts of None \<Rightarrow> 1
      | Some os \<Rightarrow> (case opt_multiplier os of None \<Rightarrow> 1 | Some m \<Rightarrow> m))"

definition rarityBoostOf :: "options option \<Rightarrow> real" where
  "rarityBoostOf opts =
     (case opts of None \<Rightarrow> 1
      | Some os \<Rightarrow> (case opt_rarityBoost os of None \<Rightarrow> 1 | Some b \<Rightarrow> b))"

definition maxRollsOf :: "options option \<Rightarrow> real" where
  "maxRollsOf opts =
     (case (case opts of None \<Rightarrow> None | Some os \<Rightarrow> opt_max os) of
        Some m \<Rightarrow> m
      | None \<Rightarrow> maxRolls (CHEST_CONFIGS (chestTypeOf opts)))"

definition finalCount :: "options option \<Rightarrow> real \<Rightarrow> real" where
  "finalCount opts r0 =
     min (Math_round (randomInt 1 (maxRollsOf opts) r0 * multiplierOf opts))
         (maxRollsOf opts * 2)"

text \<open>The names among a list of draw results, in order.\<close>

definition successes :: "string option list \<Rightarrow> string list" where
  "successes items = [n. Some n \<leftarrow> items]"

text \<open>
  A sequence of \<open>getLoot\<close> calls on one roller, each with its own chest type, boost and
  random value; the roller left by one call is the one the next call starts from.
\<close>

fun getLootCalls :: "roller \<Rightarrow> (ChestType \<times> real \<times> real) list \<Rightarrow> string option list \<times> roller" where
  "getLootCalls st [] = ([], st)"
| "getLootCalls st ((chestType, rarityBoost, r) # calls) =
     (let first = getLoot st chestType rarityBoost r;
          rest = getLootCalls (snd first) calls
      in (fst first # fst rest, snd rest))"

text \<open>A random source that returns the same value at every call.\<close>

definition always :: "real \<Rightarrow> nat \<Rightarrow> real" where
  "always r i = r"


section \<open>The chest-aware roller on an explicit store\<close>

text \<open>
  A second model of the chest-aware roller, in which the objects that the pool and the
  chest configurations consist of live in a store and are reached through references:
  the pool object, its array of entries, every entry object, the table of chest
  configurations, each configuration with its array of excluded names and its record of
  overrides, and the cell of \<open>totalRollsRef\<close>. An address is a position in the store;
  creating an object appends it. \<open>filter\<close>, \<open>map\<close> and the spread \<open>[...xs]\<close> create a new
  array, \<open>{...e, weight: w}\<close> creates a new entry object, and
  \<open>totalRollsRef.current += 1\<close> overwrites the cell. Arrays of result names, the odds
  table and the list \<open>RARE_PLUS_NAMES\<close> hold strings and numbers only and are created
  afresh by the call that uses them; they are kept as values.
\<close>

type_synonym addr = nat

datatype obj =
    EntryObj string real
  | EntriesObj "addr list"
  | PoolObj string addr
  | StringsObj "string list"
  | OverridesObj "(string \<times> real) list"
  | ConfigObj addr real "addr option"
  | ChestsObj addr addr addr
  | CellObj nat

type_synonym store = "obj list"

text \<open>
  The bindings a roller closes over: the pool it was given, the memoised pool sum, the
  module constant \<open>CHEST_CONFIGS\<close> and the ref cell.
\<close>

record refs =
  poolRef :: addr
  poolSumMemo :: real
  chestsRef :: addr
  rollsRef :: addr


definition lookup :: "store \<Rightarrow> addr \<Rightarrow> obj option" where
  "lookup h a = (if a < length h then Some (h ! a) else None)"

definition alloc :: "store \<Rightarrow> obj \<Rightarrow> addr \<times> store" where
  "alloc h ob = (length h, h @ [ob])"

text \<open>
  Reading a field through a reference. The result is \<open>None\<close> when the address holds no
  object of the expected kind, which a reference of the program never does; the
  functions below pass such a \<open>None\<close> on.
\<close>

definition readEntry :: "store \<Rightarrow> addr \<Rightarrow> LootEntry option" where
  "readEntry h a =
     (case lookup h a of Some (EntryObj n w) \<Rightarrow> Some \<lparr> name = n, weight = w \<rparr> | _ \<Rightarrow> None)"

definition readArray :: "store \<Rightarrow> addr \<Rightarrow> addr list option" where
  "readArray h a = (case lookup h a of Some (EntriesObj as) \<Rightarrow> Some as | _ \<Rightarrow> None)"

definition readStrings :: "store \<Rightarrow> addr \<Rightarrow> string list option" where
  "readStrings h a = (case lookup h a of Some (StringsObj xs) \<Rightarrow> Some xs | _ \<Rightarrow> None)"

definition readOverrides :: "store \<Rightarrow> addr \<Rightarrow> (string \<times> real) list option" where
  "readOverrides h a = (case lookup h a of Some (OverridesObj ov) \<Rightarrow> Some ov | _ \<Rightarrow> None)"

definition readCell :: "store \<Rightarrow> addr \<Rightarrow> nat option" where
  "readCell h a = (case lookup h a of Some (CellObj n) \<Rightarrow> Some n | _ \<Rightarrow> None)"

definition poolEntriesRef :: "refs \<Rightarrow> store \<Rightarrow> addr option" where
  "poolEntriesRef env h =
     (case lookup h (poolRef env) of Some (PoolObj n ea) \<Rightarrow> Some ea | _ \<Rightarrow> None)"

definition configRef :: "refs \<Rightarrow> store \<Rightarrow> ChestType \<Rightarrow> addr option" where
  "configRef env h chestType =
     (case lookup h (chestsRef env) of
        Some (ChestsObj a b c) \<Rightarrow>
          Some (case chestType of normal \<Rightarrow> a | rare \<Rightarrow> b | epic \<Rightarrow> c)
      | _ \<Rightarrow> None)"

definition excludeRef :: "store \<Rightarrow> addr \<Rightarrow> addr option" where
  "excludeRef h cfg = (case lookup h cfg of Some (ConfigObj xa m ov) \<Rightarrow> Some xa | _ \<Rightarrow> None)"

definition maxRollsAt :: "store \<Rightarrow> addr \<Rightarrow> real option" where
  "maxRollsAt h cfg = (case lookup h cfg of Some (ConfigObj xa m ov) \<Rightarrow> Some m | _ \<Rightarrow> None)"

definition overridesRef :: "store \<Rightarrow> addr \<Rightarrow> addr option option" where
  "overridesRef h cfg = (case lookup h cfg of Some (ConfigObj xa m ov) \<Rightarrow> Some ov | _ \<Rightarrow> None)"

text \<open>
  \<open>pool.entries.filter(e => !config.excludeRarities.includes(e.name))\<close>: the references
  that are kept; the caller stores them in a new array.
\<close>

fun filterStore :: "store \<Rightarrow> addr \<Rightarrow> addr list \<Rightarrow> addr list option" where
  "filterStore h cfg [] = Some []"
| "filterStore h cfg (a # as) =
     do { e \<leftarrow> readEntry h a;
          xa \<leftarrow> excludeRef h cfg;
          xs \<leftarrow> readStrings h xa;
          rest \<leftarrow> filterStore h cfg as;
          Some (if name e \<notin> set xs then a # rest else rest) }"

text \<open>
  \<open>filteredEntries.map(e => ({...e, weight: config.weightOverrides![e.name] ?? e.weight}))\<close>
  and the map of the boost: one new entry object for each element.
\<close>

fun overrideStore :: "store \<Rightarrow> addr \<Rightarrow> addr list \<Rightarrow> (addr list \<times> store) option" where
  "overrideStore h cfg [] = Some ([], h)"
| "overrideStore h cfg (a # as) =
     do { e \<leftarrow> readEntry h a;
          ovr \<leftarrow> overridesRef h cfg;
          ova \<leftarrow> ovr;
          ov \<leftarrow> readOverrides h ova;
          (b, h1) \<leftarrow> Some (alloc h (EntryObj (name e)
                              (case map_of ov (name e) of Some w \<Rightarrow> w | None \<Rightarrow> weight e)));
          (bs, h2) \<leftarrow> overrideStore h1 cfg as;
          Some (b # bs, h2) }"

fun boostStore :: "real \<Rightarrow> store \<Rightarrow> addr list \<Rightarrow> (addr list \<times> store) option" where
  "boostStore rarityBoost h [] = Some ([], h)"
| "boostStore rarityBoost h (a # as) =
     do { e \<leftarrow> readEntry h a;
          (b, h1) \<leftarrow> Some (alloc h (EntryObj (name e)
                              (if name e \<in> set RARE_PLUS_NAMES
                               then Math_round (weight e * rarityBoost) else weight e)));
          (bs, h2) \<leftarrow> boostStore rarityBoost h1 as;
          Some (b # bs, h2) }"

text \<open>The \<open>reduce\<close> that sums the weights, and the \<open>for\<close> loop of the draw.\<close>

fun reduceStore :: "store \<Rightarrow> real \<Rightarrow> addr list \<Rightarrow> real option" where
  "reduceStore h acc [] = Some acc"
| "reduceStore h acc (a # as) = do { e \<leftarrow> readEntry h a; reduceStore h (acc + weight e) as }"

fun walkStore :: "store \<Rightarrow> real \<Rightarrow> real \<Rightarrow> addr list \<Rightarrow> string option option" where
  "walkStore h roll current [] = Some None"
| "walkStore h roll current (a # as) =
     do { e \<leftarrow> readEntry h a;
          if roll \<le> current + weight e then Some (Some (name e))
          else walkStore h roll (current + weight e) as }"

text \<open>
  The three steps of \<open>getLoot\<close> that create arrays or write the cell, and \<open>getLoot\<close> on
  the store.
\<close>

definition overrideArray :: "store \<Rightarrow> addr \<Rightarrow> addr list \<Rightarrow> (addr \<times> store) option" where
  "overrideArray h cfg filteredEntries =
     do { ovr \<leftarrow> overridesRef h cfg;
          case ovr of
            Some ova \<Rightarrow> do { (bs, h') \<leftarrow> overrideStore h cfg filteredEntries;
                               Some (alloc h' (EntriesObj bs)) }
          | None \<Rightarrow> Some (alloc h (EntriesObj filteredEntries)) }"

definition boostArray :: "real \<Rightarrow> store \<Rightarrow> addr \<Rightarrow> (addr \<times> store) option" where
  "boostArray rarityBoost h ea =
     (if rarityBoost > 1
      then do { es \<leftarrow> readArray h ea;
                (bs, h') \<leftarrow> boostStore rarityBoost h es;
                Some (alloc h' (EntriesObj bs)) }
      else Some (ea, h))"

definition rollStore :: "refs \<Rightarrow> store \<Rightarrow> addr \<Rightarrow> real \<Rightarrow> (string option \<times> store) option" where
  "rollStore env h ea roll =
     do { n \<leftarrow> readCell h (rollsRef env);
          h' \<leftarrow> Some (h[rollsRef env := CellObj (n + 1)]);
          es \<leftarrow> readArray h' ea;
          item \<leftarrow> walkStore h' roll 0 es;
          Some (item, h') }"

definition getLoot_store :: "refs \<Rightarrow> store \<Rightarrow> ChestType \<Rightarrow> real \<Rightarrow> real
    \<Rightarrow> (string option \<times> store) option" where
  "getLoot_store env h chestType rarityBoost r =
     do { ea \<leftarrow> poolEntriesRef env h;
          es \<leftarrow> readArray h ea;
          if es = [] then Some (None, h)
          else do {
            cfg \<leftarrow> configRef env h chestType;
            kept \<leftarrow> filterStore h cfg es;
            (fa, h1) \<leftarrow> Some (alloc h (EntriesObj kept));
            filteredEntries \<leftarrow> readArray h1 fa;
            if filteredEntries = [] then Some (None, h1)
            else do {
              (ea2, h2) \<leftarrow> overrideArray h1 cfg filteredEntries;
              (ea3, h3) \<leftarrow> boostArray rarityBoost h2 ea2;
              es3 \<leftarrow> readArray h3 ea3;
              sum \<leftarrow> reduceStore h3 0 es3;
              if sum = 0 then Some (None, h3)
              else rollStore env h3 ea3 (r * sum) } } }"

text \<open>
  \<open>getLoots\<close> on the store. A RangeError is thrown before any draw, so the store it
  leaves is the one it found.
\<close>

fun drawManyStore :: "nat \<Rightarrow> nat \<Rightarrow> (nat \<Rightarrow> real) \<Rightarrow> ChestType \<Rightarrow> real \<Rightarrow> refs \<Rightarrow> store
    \<Rightarrow> (string option list \<times> store) option" where
  "drawManyStore 0 i rs chestType rarityBoost env h = Some ([], h)"
| "drawManyStore (Suc n) i rs chestType rarityBoost env h =
     do { (item, h1) \<leftarrow> getLoot_store env h chestType rarityBoost (rs i);
          (items, h2) \<leftarrow> drawManyStore n (Suc i) rs chestType rarityBoost env h1;
          Some (item # items, h2) }"

definition getLoots_store :: "refs \<Rightarrow> store \<Rightarrow> options option \<Rightarrow> real \<Rightarrow> (nat \<Rightarrow> real)
    \<Rightarrow> ((error + string list) \<times> store) option" where
  "getLoots_store env h opts r0 rs =
     do { cfg \<leftarrow> configRef env h (chestTypeOf opts);
          configMax \<leftarrow> maxRollsAt h cfg;
          mx \<leftarrow> Some (case (case opts of None \<Rightarrow> None | Some os \<Rightarrow> opt_max os) of
                        Some m \<Rightarrow> m | None \<Rightarrow> configMax);
          if mx \<le> 0 then Some (Inr [], h)
          else do {
            baseCount \<leftarrow> Some (randomInt 1 mx r0);
            reroll \<leftarrow> Some (min (Math_round (baseCount * multiplierOf opts)) (mx * 2));
            if \<not> validArrayLength reroll then Some (Inl RangeError, h)
            else do {
              (items, h') \<leftarrow> drawManyStore (nat \<lfloor>reroll\<rfloor>) 0 rs (chestTypeOf opts)
                                 (rarityBoostOf opts) env h;
              Some (Inr (map the (filter (\<lambda>item. item \<noteq> None) items)), h') } } }"

text \<open>\<open>getLootChances\<close> and \<open>getRollCount\<close> on the store: both only read.\<close>

fun tableStore :: "refs \<Rightarrow> store \<Rightarrow> (string \<rightharpoonup> number) \<Rightarrow> addr list \<Rightarrow> (string \<rightharpoonup> number) option" where
  "tableStore env h table [] = Some table"
| "tableStore env h table (a # as) =
     do { e \<leftarrow> readEntry h a;
          tableStore env h (table(name e \<mapsto> toPercentage (weight e) (poolSumMemo env))) as }"

definition getLootChances_store :: "refs \<Rightarrow> store \<Rightarrow> (string \<rightharpoonup> number) option" where
  "getLootChances_store env h =
     do { ea \<leftarrow> poolEntriesRef env h;
          es \<leftarrow> readArray h ea;
          tableStore env h Map.empty es }"

definition getRollCount_store :: "refs \<Rightarrow> store \<Rightarrow> nat option" where
  "getRollCount_store env h = readCell h (rollsRef env)"

text \<open>
  The calls a client can make on a roller, and the store after one call and after a
  sequence of calls.
\<close>

datatype call =
    GetLootChances
  | GetLoot ChestType real real
  | GetLoots "options option" real "nat \<Rightarrow> real"
  | GetRollCount

fun exec :: "refs \<Rightarrow> store \<Rightarrow> call \<Rightarrow> store option" where
  "exec env h GetLootChances = map_option (\<lambda>table. h) (getLootChances_store env h)"
| "exec env h (GetLoot chestType rarityBoost r) =
     map_option snd (getLoot_store env h chestType rarityBoost r)"
| "exec env h (GetLoots opts r0 rs) = map_option snd (getLoots_store env h opts r0 rs)"
| "exec env h GetRollCount = map_option (\<lambda>n. h) (getRollCount_store env h)"

fun run :: "refs \<Rightarrow> store \<Rightarrow> call list \<Rightarrow> store option" where
  "run env h [] = Some h"
| "run env h (c # cs) = do { h1 \<leftarrow> exec env h c; run env h1 cs }"

text \<open>
  What the store holds: the pool read through its reference, the chest configuration
  read through the table, and the statement that the store holds pool \<open>p\<close>, the chest
  configurations of the program and the counter value \<open>k\<close>.
\<close>

fun readEntries :: "store \<Rightarrow> addr list \<Rightarrow> LootEntry list option" where
  "readEntries h [] = Some []"
| "readEntries h (a # as) =
     do { e \<leftarrow> readEntry h a; es \<leftarrow> readEntries h as; Some (e # es) }"

definition poolOf :: "refs \<Rightarrow> store \<Rightarrow> LootPool option" where
  "poolOf env h =
     (case lookup h (poolRef env) of
        Some (PoolObj n ea) \<Rightarrow>
          do { as \<leftarrow> readArray h ea;
               es \<leftarrow> readEntries h as;
               Some \<lparr> poolName = n, entries = es \<rparr> }
      | _ \<Rightarrow> None)"

definition configOf :: "refs \<Rightarrow> store \<Rightarrow> ChestType \<Rightarrow> ChestConfig option" where
  "configOf env h chestType =
     do { cfg \<leftarrow> configRef env h chestType;
          xa \<leftarrow> excludeRef h cfg;
          xs \<leftarrow> readStrings h xa;
          m \<leftarrow> maxRollsAt h cfg;
          ovr \<leftarrow> overridesRef h cfg;
          ov \<leftarrow> (case ovr of None \<Rightarrow> Some None
                 | Some ova \<Rightarrow> map_option Some (readOverrides h ova));
          Some \<lparr> excludeRarities = xs, maxRolls = m, weightOverrides = ov \<rparr> }"

definition holds :: "refs \<Rightarrow> store \<Rightarrow> LootPool \<Rightarrow> nat \<Rightarrow> bool" where
  "holds env h p k \<longleftrightarrow>
     poolOf env h = Some p \<and> poolSumMemo env = poolSum p
     \<and> configOf env h normal = Some (CHEST_CONFIGS normal)
     \<and> configOf env h rare = Some (CHEST_CONFIGS rare)
     \<and> configOf env h epic = Some (CHEST_CONFIGS epic)
     \<and> readCell h (rollsRef env) = Some k"

text \<open>
  The store at construction: the entry objects of the pool, its array, the pool object,
  the chest configurations and the cell at 0.
\<close>

definition chestObjects :: "addr \<Rightarrow> obj list" where
  "chestObjects base =
     [ StringsObj [],
       ConfigObj base MAX_ROLL_COUNT None,
       StringsObj [''common'', ''uncommon''],
       OverridesObj [(''rare'', 5500), (''epic'', 3000), (''legendary'', 1400), (''mythic'', 100)],
       ConfigObj (base + 2) 3 (Some (base + 3)),
       StringsObj [''common'', ''uncommon'', ''rare''],
       OverridesObj [(''epic'', 6500), (''legendary'', 3200), (''mythic'', 300)],
       ConfigObj (base + 5) 2 (Some (base + 6)),
       ChestsObj (base + 1) (base + 4) (base + 7) ]"

definition load :: "LootPool \<Rightarrow> refs \<times> store" where
  "load p =
     (let n = length (entries p)
      in (\<lparr> poolRef = n + 1, poolSumMemo = poolSum p, chestsRef = n + 10, rollsRef = n + 11 \<rparr>,
          map (\<lambda>e. EntryObj (name e) (weight e)) (entries p)
          @ [EntriesObj [0..<n], PoolObj (poolName p) n]
          @ chestObjects (n + 2)
          @ [CellObj 0]))"


text \<open>\<open>pres\<close>: every object of the first store that is not a cell is kept by the second.\<close>

fun isCell :: "obj \<Rightarrow> bool" where
  "isCell (CellObj n) = True"
| "isCell ob = False"

definition pres :: "store \<Rightarrow> store \<Rightarrow> bool" where
  "pres h h' \<longleftrightarrow> (\<forall>a ob. lookup h a = Some ob \<and> \<not> isCell ob \<longrightarrow> lookup h' a = Some ob)"

text \<open>A sample sequence of calls.\<close>

definition sampleCalls :: "call list" where
  "sampleCalls =
     [GetLootChances, GetLoot rare 2 (1 / 2), GetLoots None (1 / 2) (always (1 / 2)), GetRollCount]"


section \<open>Basic facts about the list transformations and the walk\<close>

lemma foldl_weight: "foldl (\<lambda>acc e. acc + weight e) a es = a + sum_list (map weight es)"
  by (induction es arbitrary: a) simp_all


lemma overrideEntries_Nil_iff: "overrideEntries config es = [] \<longleftrightarrow> es = []"
  by (simp add: overrideEntries_def split: option.splits)

lemma boostEntries_Nil_iff: "boostEntries b es = [] \<longleftrightarrow> es = []"
  by (simp add: boostEntries_def)

lemma adjusted_Nil_iff:
  "adjustedEntries p c b = [] \<longleftrightarrow> filterEntries (CHEST_CONFIGS c) (entries p) = []"
  by (simp add: adjustedEntries_def boostEntries_Nil_iff overrideEntries_Nil_iff)

lemma filterEntries_Nil: "filterEntries config [] = []"
  by (simp add: filterEntries_def)

lemma getLoot_unfold:
  "getLoot st c b r =
     (if adjustedEntries (pool st) c b = [] \<or> localSum (pool st) c b = 0 then (None, st)
      else (walk (r * localSum (pool st) c b) 0 (adjustedEntries (pool st) c b),
            st\<lparr> totalRollsRef := totalRollsRef st + 1 \<rparr>))"
proof (cases "filterEntries (CHEST_CONFIGS c) (entries (pool st)) = []")
  case True
  then show ?thesis
    by (simp add: getLoot_def adjusted_Nil_iff)
next
  case False
  then have "entries (pool st) \<noteq> []"
    by (auto simp: filterEntries_Nil)
  with False show ?thesis
    by (simp add: getLoot_def Let_def adjusted_Nil_iff localSum_def foldl_weight
        adjustedEntries_def)
qed

lemma poolSum_sum_list: "poolSum p = sum_list (map weight (entries p))"
  by (simp add: poolSum_def foldl_weight)

lemma walk_Some_set: "walk roll c es = Some n \<Longrightarrow> n \<in> name ` set es"
  by (induction es arbitrary: c) (auto split: if_splits)

lemma name_overrideEntries: "map name (overrideEntries config es) = map name es"
  by (simp add: overrideEntries_def split: option.splits)

lemma name_boostEntries: "map name (boostEntries b es) = map name es"
  by (simp add: boostEntries_def)

lemma name_adjustedEntries:
  "map name (adjustedEntries p c b) = map name (filterEntries (CHEST_CONFIGS c) (entries p))"
  by (simp add: adjustedEntries_def name_boostEntries name_overrideEntries)

lemma getLoot_Some_filtered:
  assumes "fst (getLoot st c b r) = Some n"
  shows "n \<in> name ` set (filterEntries (CHEST_CONFIGS c) (entries (pool st)))"
proof -
  from assms have "walk (r * localSum (pool st) c b) 0 (adjustedEntries (pool st) c b) = Some n"
    by (simp add: getLoot_unfold split: if_splits)
  then have "n \<in> set (map name (adjustedEntries (pool st) c b))"
    using walk_Some_set by fastforce
  then show ?thesis by (simp add: name_adjustedEntries)
qed

lemma filterEntries_normal: "filterEntries (CHEST_CONFIGS normal) es = es"
  by (simp add: filterEntries_def)

lemma adjustedEntries_normal_1: "adjustedEntries p normal 1 = entries p"
  by (simp add: adjustedEntries_def filterEntries_def overrideEntries_def boostEntries_def)









section \<open>Rounding\<close>





lemma Math_round_nearest: "\<bar>Math_round x - x\<bar> \<le> 1 / 2 \<and> (\<exists>k::int. Math_round x = of_int k)"
  unfolding Math_round_def by (rule conjI, linarith, blast)




section \<open>The odds table as a fold\<close>





section \<open>Non-negative weights stay non-negative\<close>









lemma getLoot_fails:
  "filterEntries (CHEST_CONFIGS c) (entries (pool st)) = [] \<or> localSum (pool st) c b = 0 \<Longrightarrow>
   getLoot st c b r = (None, st)"
  by (auto simp: getLoot_unfold adjusted_Nil_iff)


section \<open>Sequences of draws\<close>

lemma getLoot_pool: "pool (snd (getLoot st c b r)) = pool st"
  by (simp add: getLoot_unfold)

lemma drawMany_pool: "pool (snd (drawMany n i rs c b st)) = pool st"
  by (induction n arbitrary: i st) (simp_all add: split_beta getLoot_pool)




lemma getLootCalls_pool: "pool (snd (getLootCalls st calls)) = pool st"
  by (induction calls arbitrary: st) (auto simp: Let_def getLoot_pool)



lemma successes_eq: "map the (filter (\<lambda>item. item \<noteq> None) items) = successes items"
  unfolding successes_def by (induction items) (auto split: option.splits)





section \<open>The batch size\<close>

lemma getLoots_unfold:
  "getLoots st opts r0 rs =
     (if maxRollsOf opts \<le> 0 then Inr ([], st)
      else if \<not> validArrayLength (finalCount opts r0) then Inl RangeError
      else Inr (successes (fst (drawMany (nat \<lfloor>finalCount opts r0\<rfloor>) 0 rs (chestTypeOf opts)
                                  (rarityBoostOf opts) st)),
                snd (drawMany (nat \<lfloor>finalCount opts r0\<rfloor>) 0 rs (chestTypeOf opts)
                       (rarityBoostOf opts) st)))"
  unfolding getLoots_def maxRollsOf_def chestTypeOf_def multiplierOf_def rarityBoostOf_def
    finalCount_def Let_def
  by (simp only: split_beta successes_eq)








section \<open>Evaluation on concrete pools\<close>

lemmas pool_eval = rarityPool_def filterEntries_def overrideEntries_def boostEntries_def
  RARE_PLUS_NAMES_def Math_round_def adjustedEntries_def localSum_def



section \<open>The store: reads through references\<close>

lemma pres_refl: "pres h h"
  by (simp add: pres_def)

lemma pres_trans: "pres h h1 \<Longrightarrow> pres h1 h2 \<Longrightarrow> pres h h2"
  by (simp add: pres_def)

lemma pres_append: "pres h (h @ xs)"
  by (simp add: pres_def lookup_def nth_append)

lemma pres_alloc: "pres h (snd (alloc h ob))"
  by (simp add: alloc_def pres_append)

lemma pres_update_cell: "readCell h r = Some n \<Longrightarrow> pres h (h[r := CellObj k])"
  by (auto simp: pres_def lookup_def readCell_def nth_list_update split: if_splits obj.splits)

lemma lookup_new: "lookup (h @ ob # xs) (length h) = Some ob"
  by (simp add: lookup_def)

lemma pres_lookup: "pres h h' \<Longrightarrow> lookup h a = Some ob \<Longrightarrow> \<not> isCell ob \<Longrightarrow> lookup h' a = Some ob"
  by (simp add: pres_def)

lemma readEntry_Some_iff:
  "readEntry h a = Some e \<longleftrightarrow> lookup h a = Some (EntryObj (name e) (weight e))"
  by (cases e) (auto simp: readEntry_def split: option.splits obj.splits)

lemma readArray_Some_iff: "readArray h a = Some as \<longleftrightarrow> lookup h a = Some (EntriesObj as)"
  by (auto simp: readArray_def split: option.splits obj.splits)

lemma readStrings_Some_iff: "readStrings h a = Some xs \<longleftrightarrow> lookup h a = Some (StringsObj xs)"
  by (auto simp: readStrings_def split: option.splits obj.splits)

lemma readOverrides_Some_iff:
  "readOverrides h a = Some ov \<longleftrightarrow> lookup h a = Some (OverridesObj ov)"
  by (auto simp: readOverrides_def split: option.splits obj.splits)

lemma readCell_Some_iff: "readCell h a = Some n \<longleftrightarrow> lookup h a = Some (CellObj n)"
  by (auto simp: readCell_def split: option.splits obj.splits)

lemma excludeRef_Some_iff:
  "excludeRef h a = Some xa \<longleftrightarrow> (\<exists>m ov. lookup h a = Some (ConfigObj xa m ov))"
  by (auto simp: excludeRef_def split: option.splits obj.splits)

lemma maxRollsAt_Some_iff:
  "maxRollsAt h a = Some m \<longleftrightarrow> (\<exists>xa ov. lookup h a = Some (ConfigObj xa m ov))"
  by (auto simp: maxRollsAt_def split: option.splits obj.splits)

lemma overridesRef_Some_iff:
  "overridesRef h a = Some ov \<longleftrightarrow> (\<exists>xa m. lookup h a = Some (ConfigObj xa m ov))"
  by (auto simp: overridesRef_def split: option.splits obj.splits)

lemma configRef_Some_iff:
  "configRef env h c = Some cfg \<longleftrightarrow>
     (\<exists>x y z. lookup h (chestsRef env) = Some (ChestsObj x y z)
        \<and> cfg = (case c of normal \<Rightarrow> x | rare \<Rightarrow> y | epic \<Rightarrow> z))"
  by (auto simp: configRef_def split: option.splits obj.splits)

lemma poolEntriesRef_Some_iff:
  "poolEntriesRef env h = Some ea \<longleftrightarrow> (\<exists>n. lookup h (poolRef env) = Some (PoolObj n ea))"
  by (auto simp: poolEntriesRef_def split: option.splits obj.splits)

lemma pres_readEntry: "pres h h' \<Longrightarrow> readEntry h a = Some e \<Longrightarrow> readEntry h' a = Some e"
  by (auto simp: readEntry_Some_iff dest: pres_lookup)

lemma pres_readArray: "pres h h' \<Longrightarrow> readArray h a = Some as \<Longrightarrow> readArray h' a = Some as"
  by (auto simp: readArray_Some_iff dest: pres_lookup)

lemma pres_readStrings: "pres h h' \<Longrightarrow> readStrings h a = Some xs \<Longrightarrow> readStrings h' a = Some xs"
  by (auto simp: readStrings_Some_iff dest: pres_lookup)

lemma pres_readOverrides:
  "pres h h' \<Longrightarrow> readOverrides h a = Some ov \<Longrightarrow> readOverrides h' a = Some ov"
  by (auto simp: readOverrides_Some_iff dest: pres_lookup)

lemma pres_excludeRef: "pres h h' \<Longrightarrow> excludeRef h a = Some xa \<Longrightarrow> excludeRef h' a = Some xa"
  by (auto simp: excludeRef_Some_iff dest: pres_lookup)

lemma pres_maxRollsAt: "pres h h' \<Longrightarrow> maxRollsAt h a = Some m \<Longrightarrow> maxRollsAt h' a = Some m"
  by (auto simp: maxRollsAt_Some_iff dest: pres_lookup)

lemma pres_overridesRef:
  "pres h h' \<Longrightarrow> overridesRef h a = Some ovr \<Longrightarrow> overridesRef h' a = Some ovr"
  by (auto simp: overridesRef_Some_iff dest: pres_lookup)

lemma pres_configRef:
  "pres h h' \<Longrightarrow> configRef env h c = Some cfg \<Longrightarrow> configRef env h' c = Some cfg"
  by (auto simp: configRef_Some_iff dest: pres_lookup)

lemma pres_poolEntriesRef:
  "pres h h' \<Longrightarrow> poolEntriesRef env h = Some ea \<Longrightarrow> poolEntriesRef env h' = Some ea"
  by (auto simp: poolEntriesRef_Some_iff dest: pres_lookup)

lemma pres_readEntries:
  "pres h h' \<Longrightarrow> readEntries h as = Some es \<Longrightarrow> readEntries h' as = Some es"
  by (induction as arbitrary: es) (auto simp: pres_readEntry split: Option.bind_splits)

lemma poolOf_Some_iff:
  "poolOf env h = Some p \<longleftrightarrow>
     (\<exists>ea as. lookup h (poolRef env) = Some (PoolObj (poolName p) ea)
        \<and> readArray h ea = Some as \<and> readEntries h as = Some (entries p))"
  by (cases p) (auto simp: poolOf_def split: option.splits obj.splits Option.bind_splits)

lemma pres_poolOf: "pres h h' \<Longrightarrow> poolOf env h = Some p \<Longrightarrow> poolOf env h' = Some p"
  unfolding poolOf_Some_iff
proof -
  assume p: "pres h h'"
  assume "\<exists>ea as. lookup h (poolRef env) = Some (PoolObj (poolName p) ea)
        \<and> readArray h ea = Some as \<and> readEntries h as = Some (entries p)"
  then obtain ea as where a: "lookup h (poolRef env) = Some (PoolObj (poolName p) ea)"
    "readArray h ea = Some as" "readEntries h as = Some (entries p)" by blast
  have "lookup h' (poolRef env) = Some (PoolObj (poolName p) ea)"
    using pres_lookup[OF p a(1)] by simp
  then show "\<exists>ea as. lookup h' (poolRef env) = Some (PoolObj (poolName p) ea)
        \<and> readArray h' ea = Some as \<and> readEntries h' as = Some (entries p)"
    using pres_readArray[OF p a(2)] pres_readEntries[OF p a(3)] by blast
qed

lemma pres_configOf:
  assumes "pres h h'" and "configOf env h c = Some cfg"
  shows "configOf env h' c = Some cfg"
  using assms(2) unfolding configOf_def
  by (auto simp: pres_configRef[OF assms(1)] pres_excludeRef[OF assms(1)]
      pres_readStrings[OF assms(1)] pres_maxRollsAt[OF assms(1)] pres_overridesRef[OF assms(1)]
      pres_readOverrides[OF assms(1)]
      split: Option.bind_splits option.splits)

lemma holds_pres:
  "holds env h p k \<Longrightarrow> pres h h' \<Longrightarrow> readCell h' (rollsRef env) = Some k' \<Longrightarrow> holds env h' p k'"
  by (simp add: holds_def pres_poolOf pres_configOf)

lemma filterStore_correct:
  assumes "excludeRef h cfg = Some xa" and "readStrings h xa = Some xs"
  shows "readEntries h as = Some es \<Longrightarrow>
     \<exists>kept. filterStore h cfg as = Some kept
        \<and> readEntries h kept = Some (filter (\<lambda>e. name e \<notin> set xs) es)"
proof (induction as arbitrary: es)
  case Nil
  then show ?case by simp
next
  case (Cons a as)
  from Cons.prems obtain e es' where e: "readEntry h a = Some e" "readEntries h as = Some es'"
    "es = e # es'" by (auto split: Option.bind_splits)
  from Cons.IH[OF e(2)] obtain kept where k: "filterStore h cfg as = Some kept"
    "readEntries h kept = Some (filter (\<lambda>e. name e \<notin> set xs) es')" by blast
  show ?case using e k assms by simp
qed

lemma readEntry_new: "readEntry (h @ EntryObj n w # xs) (length h) = Some \<lparr> name = n, weight = w \<rparr>"
  by (simp add: readEntry_def lookup_new)

lemma overrideStore_correct:
  assumes "overridesRef h cfg = Some (Some ova)" and "readOverrides h ova = Some ov"
  shows "readEntries h as = Some es \<Longrightarrow>
     \<exists>bs xs. overrideStore h cfg as = Some (bs, h @ xs)
        \<and> readEntries (h @ xs) bs
            = Some (map (\<lambda>e. e\<lparr> weight := (case map_of ov (name e) of Some w \<Rightarrow> w | None \<Rightarrow> weight e) \<rparr>) es)"
  using assms
proof (induction as arbitrary: es h)
  case Nil
  then have "overrideStore h cfg [] = Some ([], h @ []) \<and> readEntries (h @ []) [] = Some (map (\<lambda>e. e\<lparr> weight := (case map_of ov (name e) of Some w \<Rightarrow> w | None \<Rightarrow> weight e) \<rparr>) es)"
    by simp
  then show ?case by blast
next
  case (Cons a as)
  let ?f = "\<lambda>e. e\<lparr> weight := (case map_of ov (name e) of Some w \<Rightarrow> w | None \<Rightarrow> weight e) \<rparr>"
  from Cons.prems(1) obtain e es' where e: "readEntry h a = Some e" "readEntries h as = Some es'"
    "es = e # es'" by (auto split: Option.bind_splits)
  let ?new = "EntryObj (name e) (case map_of ov (name e) of Some w \<Rightarrow> w | None \<Rightarrow> weight e)"
  let ?h1 = "h @ [?new]"
  have p: "pres h ?h1" by (rule pres_append)
  have r1: "readEntries ?h1 as = Some es'" using pres_readEntries[OF p e(2)] .
  have r2: "overridesRef ?h1 cfg = Some (Some ova)" using pres_overridesRef[OF p Cons.prems(2)] .
  have r3: "readOverrides ?h1 ova = Some ov" using pres_readOverrides[OF p Cons.prems(3)] .
  from Cons.IH[OF r1 r2 r3] obtain bs xs where
    b: "overrideStore ?h1 cfg as = Some (bs, ?h1 @ xs)"
       "readEntries (?h1 @ xs) bs = Some (map ?f es')" by blast
  have n: "readEntry (?h1 @ xs) (length h) = Some (?f e)"
    using readEntry_new[of h "name e" _ xs] by (cases e) simp
  have "overrideStore h cfg (a # as) = Some (length h # bs, h @ (?new # xs))"
    using e(1) Cons.prems(2,3) b(1) by (simp add: alloc_def)
  moreover have "readEntries (h @ (?new # xs)) (length h # bs) = Some (map ?f es)"
    using n b(2) e(3) by simp
  ultimately show ?case by blast
qed

lemma boostStore_correct:
  "readEntries h as = Some es \<Longrightarrow>
     \<exists>bs xs. boostStore b h as = Some (bs, h @ xs)
        \<and> readEntries (h @ xs) bs
            = Some (map (\<lambda>e. e\<lparr> weight := (if name e \<in> set RARE_PLUS_NAMES
                                           then Math_round (weight e * b) else weight e) \<rparr>) es)"
proof (induction as arbitrary: es h)
  case Nil
  then have "boostStore b h [] = Some ([], h @ []) \<and> readEntries (h @ []) [] = Some (map (\<lambda>e. e\<lparr> weight := (if name e \<in> set RARE_PLUS_NAMES
                                           then Math_round (weight e * b) else weight e) \<rparr>) es)"
    by simp
  then show ?case by blast
next
  case (Cons a as)
  let ?f = "\<lambda>e. e\<lparr> weight := (if name e \<in> set RARE_PLUS_NAMES
                                           then Math_round (weight e * b) else weight e) \<rparr>"
  from Cons.prems(1) obtain e es' where e: "readEntry h a = Some e" "readEntries h as = Some es'"
    "es = e # es'" by (auto split: Option.bind_splits)
  let ?new = "EntryObj (name e) (if name e \<in> set RARE_PLUS_NAMES
                                           then Math_round (weight e * b) else weight e)"
  let ?h1 = "h @ [?new]"
  have p: "pres h ?h1" by (rule pres_append)
  have r1: "readEntries ?h1 as = Some es'" using pres_readEntries[OF p e(2)] .
  from Cons.IH[OF r1] obtain bs xs where
    b: "boostStore b ?h1 as = Some (bs, ?h1 @ xs)"
       "readEntries (?h1 @ xs) bs = Some (map ?f es')" by blast
  have n: "readEntry (?h1 @ xs) (length h) = Some (?f e)"
    using readEntry_new[of h "name e" _ xs] by (cases e) simp
  have "boostStore b h (a # as) = Some (length h # bs, h @ (?new # xs))"
    using e(1) b(1) by (simp add: alloc_def)
  moreover have "readEntries (h @ (?new # xs)) (length h # bs) = Some (map ?f es)"
    using n b(2) e(3) by simp
  ultimately show ?case by blast
qed

lemma reduceStore_correct:
  "readEntries h as = Some es \<Longrightarrow>
   reduceStore h acc as = Some (foldl (\<lambda>acc e. acc + weight e) acc es)"
  by (induction as arbitrary: es acc) (auto split: Option.bind_splits)

lemma walkStore_correct:
  "readEntries h as = Some es \<Longrightarrow> walkStore h roll c as = Some (walk roll c es)"
  by (induction as arbitrary: es c) (auto split: Option.bind_splits)

lemma overrideStore_extends:
  "overrideStore h cfg as = Some (bs, h') \<Longrightarrow> \<exists>xs. h' = h @ xs"
proof (induction as arbitrary: h bs)
  case Nil
  then show ?case by simp
next
  case (Cons a as)
  from Cons.prems obtain ob bs' where "overrideStore (h @ [ob]) cfg as = Some (bs', h')"
    by (auto simp: alloc_def split: Option.bind_splits)
  from Cons.IH[OF this] show ?case by auto
qed

lemma boostStore_extends:
  "boostStore b h as = Some (bs, h') \<Longrightarrow> \<exists>xs. h' = h @ xs"
proof (induction as arbitrary: h bs)
  case Nil
  then show ?case by simp
next
  case (Cons a as)
  from Cons.prems obtain ob bs' where "boostStore b (h @ [ob]) as = Some (bs', h')"
    by (auto simp: alloc_def split: Option.bind_splits)
  from Cons.IH[OF this] show ?case by auto
qed

lemma lookup_append: "lookup h a = Some ob \<Longrightarrow> lookup (h @ xs) a = Some ob"
  by (auto simp: lookup_def nth_append split: if_splits)

lemma readCell_append: "readCell h a = Some n \<Longrightarrow> readCell (h @ xs) a = Some n"
  by (simp add: readCell_Some_iff lookup_append)

lemma readArray_new: "readArray (h @ EntriesObj as # xs) (length h) = Some as"
  by (simp add: readArray_def lookup_new)

lemma overrideArray_correct:
  assumes "overridesRef h cfg = Some ovr"
    and "case ovr of None \<Rightarrow> ov = None | Some ova \<Rightarrow> (\<exists>l. readOverrides h ova = Some l \<and> ov = Some l)"
    and "readEntries h as = Some es"
  shows "\<exists>ea xs bs. overrideArray h cfg as = Some (ea, h @ xs)
      \<and> readArray (h @ xs) ea = Some bs
      \<and> readEntries (h @ xs) bs
          = Some (case ov of
                    Some l \<Rightarrow> map (\<lambda>e. e\<lparr> weight := (case map_of l (name e) of Some w \<Rightarrow> w | None \<Rightarrow> weight e) \<rparr>) es
                  | None \<Rightarrow> es)"
proof (cases ovr)
  case None
  then have ov: "ov = None" using assms(2) by simp
  have "overrideArray h cfg as = Some (length h, h @ [EntriesObj as])"
    using assms(1) None by (simp add: overrideArray_def alloc_def)
  moreover have "readArray (h @ [EntriesObj as]) (length h) = Some as" by (rule readArray_new)
  moreover have "readEntries (h @ [EntriesObj as]) as = Some es"
    using pres_readEntries[OF pres_append assms(3)] .
  ultimately show ?thesis using ov by auto
next
  case (Some ova)
  then obtain l where l: "readOverrides h ova = Some l" "ov = Some l" using assms(2) by auto
  let ?f = "\<lambda>e. e\<lparr> weight := (case map_of l (name e) of Some w \<Rightarrow> w | None \<Rightarrow> weight e) \<rparr>"
  from overrideStore_correct[OF assms(1)[unfolded Some] l(1) assms(3)]
  obtain bs xs where b: "overrideStore h cfg as = Some (bs, h @ xs)"
    "readEntries (h @ xs) bs = Some (map ?f es)" by blast
  have "overrideArray h cfg as = Some (length (h @ xs), h @ (xs @ [EntriesObj bs]))"
    using assms(1) Some b(1) by (simp add: overrideArray_def alloc_def)
  moreover have "readArray (h @ (xs @ [EntriesObj bs])) (length (h @ xs)) = Some bs"
    using readArray_new[of "h @ xs" bs "[]"] by simp
  moreover have "readEntries (h @ (xs @ [EntriesObj bs])) bs = Some (map ?f es)"
    using pres_readEntries[OF pres_append b(2), of "[EntriesObj bs]"] by simp
  ultimately show ?thesis using l(2) by auto
qed

lemma boostArray_correct:
  assumes "readArray h ea = Some as" and "readEntries h as = Some es"
  shows "\<exists>ea' xs bs. boostArray b h ea = Some (ea', h @ xs)
      \<and> readArray (h @ xs) ea' = Some bs
      \<and> readEntries (h @ xs) bs = Some (boostEntries b es)"
proof (cases "1 < b")
  case False
  then have "boostArray b h ea = Some (ea, h @ [])" by (simp add: boostArray_def)
  moreover have "readArray (h @ []) ea = Some as" "readEntries (h @ []) as = Some (boostEntries b es)"
    using assms False by (simp_all add: boostEntries_def)
  ultimately show ?thesis by blast
next
  case True
  from boostStore_correct[OF assms(2), of b]
  obtain bs xs where b: "boostStore b h as = Some (bs, h @ xs)"
    "readEntries (h @ xs) bs = Some (boostEntries b es)"
    using True by (auto simp: boostEntries_def)
  have "boostArray b h ea = Some (length (h @ xs), h @ (xs @ [EntriesObj bs]))"
    using True assms(1) b(1) by (simp add: boostArray_def alloc_def)
  moreover have "readArray (h @ (xs @ [EntriesObj bs])) (length (h @ xs)) = Some bs"
    using readArray_new[of "h @ xs" bs "[]"] by simp
  moreover have "readEntries (h @ (xs @ [EntriesObj bs])) bs = Some (boostEntries b es)"
    using pres_readEntries[OF pres_append b(2), of "[EntriesObj bs]"] by simp
  ultimately show ?thesis by blast
qed

lemma readCell_update: "readCell h r = Some n \<Longrightarrow> readCell (h[r := CellObj k]) r = Some k"
  by (auto simp: readCell_Some_iff lookup_def split: if_splits)

lemma rollStore_correct:
  assumes "readCell h (rollsRef env) = Some k" and "readArray h ea = Some as"
    and "readEntries h as = Some es"
  shows "rollStore env h ea roll = Some (walk roll 0 es, h[rollsRef env := CellObj (k + 1)])"
proof -
  let ?h' = "h[rollsRef env := CellObj (k + 1)]"
  have p: "pres h ?h'" using assms(1) by (rule pres_update_cell)
  have "readArray ?h' ea = Some as" using pres_readArray[OF p assms(2)] .
  moreover have "walkStore ?h' roll 0 as = Some (walk roll 0 es)"
    using walkStore_correct[OF pres_readEntries[OF p assms(3)]] .
  ultimately show ?thesis using assms(1) by (simp add: rollStore_def)
qed

lemma configOf_SomeD:
  assumes "configOf env h c = Some config"
  shows "\<exists>cfg xa ovr. configRef env h c = Some cfg \<and> excludeRef h cfg = Some xa
      \<and> readStrings h xa = Some (excludeRarities config)
      \<and> maxRollsAt h cfg = Some (maxRolls config)
      \<and> overridesRef h cfg = Some ovr
      \<and> (case ovr of None \<Rightarrow> weightOverrides config = None
          | Some ova \<Rightarrow> (\<exists>l. readOverrides h ova = Some l \<and> weightOverrides config = Some l))"
  using assms unfolding configOf_def
  by (cases config) (auto split: Option.bind_splits option.splits)

lemma holds_configOf: "holds env h p k \<Longrightarrow> configOf env h c = Some (CHEST_CONFIGS c)"
  by (cases c) (simp_all add: holds_def)

lemma readEntries_Nil_iff: "readEntries h as = Some es \<Longrightarrow> as = [] \<longleftrightarrow> es = []"
  by (cases as) (auto split: Option.bind_splits)

lemma getLoot_store_refines:
  assumes "holds env h p k"
  shows "\<exists>xs. getLoot_store env h c b r
           = Some (fst (getLoot \<lparr> pool = p, totalRollsRef = k \<rparr> c b r),
                   (h @ xs)[rollsRef env :=
                      CellObj (totalRollsRef (snd (getLoot \<lparr> pool = p, totalRollsRef = k \<rparr> c b r)))])"
proof -
  let ?st = "\<lparr> pool = p, totalRollsRef = k \<rparr>"
  let ?cell = "\<lambda>h n. h[rollsRef env := CellObj n]"
  have cellk: "readCell h (rollsRef env) = Some k" using assms by (simp add: holds_def)
  have same: "?cell (h @ xs) k = h @ xs" for xs
  proof -
    have "lookup (h @ xs) (rollsRef env) = Some (CellObj k)"
      using cellk by (simp add: readCell_Some_iff lookup_append)
    then show ?thesis by (auto simp: lookup_def list_update_same_conv split: if_splits)
  qed
  have "poolOf env h = Some p" using assms by (simp add: holds_def)
  then obtain ea as where pool: "poolEntriesRef env h = Some ea" "readArray h ea = Some as"
    "readEntries h as = Some (entries p)"
    unfolding poolOf_Some_iff poolEntriesRef_Some_iff by blast
  from configOf_SomeD[OF holds_configOf[OF assms, of c]] obtain cfg xa ovr where
    cfg: "configRef env h c = Some cfg" "excludeRef h cfg = Some xa"
      "readStrings h xa = Some (excludeRarities (CHEST_CONFIGS c))"
      "overridesRef h cfg = Some ovr"
      "case ovr of None \<Rightarrow> weightOverrides (CHEST_CONFIGS c) = None
          | Some ova \<Rightarrow> (\<exists>l. readOverrides h ova = Some l \<and> weightOverrides (CHEST_CONFIGS c) = Some l)"
    by blast
  let ?fe = "filterEntries (CHEST_CONFIGS c) (entries p)"
  from filterStore_correct[OF cfg(2,3) pool(3)] obtain kept where
    kept: "filterStore h cfg as = Some kept" "readEntries h kept = Some ?fe"
    by (auto simp: filterEntries_def)
  let ?h1 = "h @ [EntriesObj kept]"
  have p1: "pres h ?h1" by (rule pres_append)
  have fa: "readArray ?h1 (length h) = Some kept" by (rule readArray_new)
  show ?thesis
  proof (cases "?fe = []")
    case True
    then have "kept = []" using readEntries_Nil_iff[OF kept(2)] by simp
    then have S: "getLoot_store env h c b r = Some (None, h @ (if as = [] then [] else [EntriesObj kept]))"
      using pool(1,2) cfg(1) kept(1) fa by (simp add: getLoot_store_def alloc_def)
    have P: "getLoot ?st c b r = (None, ?st)"
      using True by (simp add: getLoot_fails)
    show ?thesis
      unfolding S P by (rule exI[of _ "if as = [] then [] else [EntriesObj kept]"]) (simp add: same)
  next
    case False
    then have ne: "kept \<noteq> []" "as \<noteq> []"
      using readEntries_Nil_iff[OF kept(2)] readEntries_Nil_iff[OF pool(3)]
      by (auto simp: filterEntries_def)
    have o1: "overridesRef ?h1 cfg = Some ovr" using pres_overridesRef[OF p1 cfg(4)] .
    have o2: "case ovr of None \<Rightarrow> weightOverrides (CHEST_CONFIGS c) = None
          | Some ova \<Rightarrow> (\<exists>l. readOverrides ?h1 ova = Some l \<and> weightOverrides (CHEST_CONFIGS c) = Some l)"
      using cfg(5) pres_readOverrides[OF p1] by (auto split: option.splits)
    from overrideArray_correct[OF o1 o2 pres_readEntries[OF p1 kept(2)]]
    obtain ea2 xs2 bs2 where ov: "overrideArray ?h1 cfg kept = Some (ea2, ?h1 @ xs2)"
      "readArray (?h1 @ xs2) ea2 = Some bs2"
      "readEntries (?h1 @ xs2) bs2 = Some (overrideEntries (CHEST_CONFIGS c) ?fe)"
      by (auto simp: overrideEntries_def)
    from boostArray_correct[OF ov(2,3), of b]
    obtain ea3 xs3 bs3 where bo: "boostArray b (?h1 @ xs2) ea2 = Some (ea3, (?h1 @ xs2) @ xs3)"
      "readArray ((?h1 @ xs2) @ xs3) ea3 = Some bs3"
      "readEntries ((?h1 @ xs2) @ xs3) bs3 = Some (adjustedEntries p c b)"
      by (auto simp: adjustedEntries_def)
    let ?h3 = "(?h1 @ xs2) @ xs3"
    have h3: "?h3 = h @ (EntriesObj kept # xs2 @ xs3)" by simp
    have sum: "reduceStore ?h3 0 bs3 = Some (localSum p c b)"
      using reduceStore_correct[OF bo(3), of 0] by (simp add: localSum_def foldl_weight)
    have c3: "readCell ?h3 (rollsRef env) = Some k"
      unfolding h3 using cellk by (rule readCell_append)
    have adj: "adjustedEntries p c b \<noteq> []" using False by (simp add: adjusted_Nil_iff)
    have G: "getLoot_store env h c b r =
       (if localSum p c b = 0 then Some (None, ?h3)
        else rollStore env ?h3 ea3 (r * localSum p c b))"
      using pool cfg(1) kept(1) fa ne ov(1) bo(1,2) sum
      by (simp add: getLoot_store_def alloc_def)
    show ?thesis
    proof (cases "localSum p c b = 0")
      case True
      then have P: "getLoot ?st c b r = (None, ?st)" by (simp add: getLoot_fails)
      have S: "getLoot_store env h c b r = Some (None, h @ (EntriesObj kept # xs2 @ xs3))"
        using G True by simp
      show ?thesis
        unfolding S P by (rule exI[of _ "EntriesObj kept # xs2 @ xs3"]) (simp add: same)
    next
      case nz: False
      have P: "getLoot ?st c b r = (walk (r * localSum p c b) 0 (adjustedEntries p c b),
                ?st\<lparr> totalRollsRef := k + 1 \<rparr>)"
        using nz adj by (simp add: getLoot_unfold)
      have "rollStore env ?h3 ea3 (r * localSum p c b)
          = Some (walk (r * localSum p c b) 0 (adjustedEntries p c b), ?cell ?h3 (k + 1))"
        using c3 bo(2,3) by (rule rollStore_correct)
      then have S: "getLoot_store env h c b r
          = Some (walk (r * localSum p c b) 0 (adjustedEntries p c b),
                  ?cell (h @ (EntriesObj kept # xs2 @ xs3)) (k + 1))"
        using nz unfolding G by simp
      show ?thesis
        unfolding S P by (rule exI[of _ "EntriesObj kept # xs2 @ xs3"]) simp
    qed
  qed
qed

lemma roller_eta: "\<lparr> pool = pool st, totalRollsRef = totalRollsRef st \<rparr> = st"
  by (cases st) simp

lemma holds_rollsRef_bound: "holds env h p k \<Longrightarrow> rollsRef env < length h"
  by (auto simp: holds_def readCell_Some_iff lookup_def split: if_splits)

lemma holds_step:
  assumes "holds env h p k"
  shows "holds env ((h @ xs)[rollsRef env := CellObj k']) p k'"
proof -
  have c: "readCell (h @ xs) (rollsRef env) = Some k"
    using assms by (simp add: holds_def readCell_append)
  have P: "pres h ((h @ xs)[rollsRef env := CellObj k'])"
    using pres_trans[OF pres_append pres_update_cell[OF c]] .
  show ?thesis using assms P readCell_update[OF c] by (rule holds_pres)
qed

lemma update_append_update:
  "r < length h \<Longrightarrow> ((h @ xs)[r := c1] @ ys)[r := c2] = (h @ (xs @ ys))[r := c2]"
  by (simp add: list_update_append)

lemma same_cell:
  assumes "holds env h p k"
  shows "(h @ [])[rollsRef env := CellObj k] = h"
proof -
  have "lookup h (rollsRef env) = Some (CellObj k)"
    using assms by (simp add: holds_def readCell_Some_iff)
  then show ?thesis by (auto simp: lookup_def list_update_same_conv split: if_splits)
qed

lemma getLoot_counter_mono: "totalRollsRef st \<le> totalRollsRef (snd (getLoot st c b r))"
  by (simp add: getLoot_unfold)

lemma drawMany_counter_mono: "totalRollsRef st \<le> totalRollsRef (snd (drawMany n i rs c b st))"
proof (induction n arbitrary: i st)
  case 0
  then show ?case by simp
next
  case (Suc n)
  have "totalRollsRef st \<le> totalRollsRef (snd (getLoot st c b (rs i)))"
    by (rule getLoot_counter_mono)
  also have "\<dots> \<le> totalRollsRef (snd (drawMany n (Suc i) rs c b (snd (getLoot st c b (rs i)))))"
    by (rule Suc.IH)
  finally show ?case by (simp add: split_beta)
qed

lemma drawManyStore_refines:
  assumes "holds env h p k"
  shows "\<exists>xs. drawManyStore n i rs c b env h
           = Some (fst (drawMany n i rs c b \<lparr> pool = p, totalRollsRef = k \<rparr>),
                   (h @ xs)[rollsRef env :=
                      CellObj (totalRollsRef (snd (drawMany n i rs c b \<lparr> pool = p, totalRollsRef = k \<rparr>)))])"
  using assms
proof (induction n arbitrary: i h k)
  case 0
  have "drawManyStore 0 i rs c b env h = Some ([], (h @ [])[rollsRef env := CellObj k])"
    using same_cell[OF "0.prems"] by simp
  then show ?case by (intro exI[of _ "[]"]) simp
next
  case (Suc n)
  let ?st = "\<lparr> pool = p, totalRollsRef = k \<rparr>"
  let ?g = "getLoot ?st c b (rs i)"
  define k1 where "k1 = totalRollsRef (snd ?g)"
  from getLoot_store_refines[OF Suc.prems, of c b "rs i"] obtain xs where
    g: "getLoot_store env h c b (rs i) = Some (fst ?g, (h @ xs)[rollsRef env := CellObj k1])"
    unfolding k1_def by blast
  let ?h1 = "(h @ xs)[rollsRef env := CellObj k1]"
  have st1: "snd ?g = \<lparr> pool = p, totalRollsRef = k1 \<rparr>"
    unfolding k1_def using getLoot_pool[of ?st c b "rs i"] roller_eta[of "snd ?g"] by simp
  have h1: "holds env ?h1 p k1" using Suc.prems by (rule holds_step)
  let ?d = "drawMany n (Suc i) rs c b \<lparr> pool = p, totalRollsRef = k1 \<rparr>"
  from Suc.IH[OF h1, of "Suc i"] obtain ys where
    d: "drawManyStore n (Suc i) rs c b env ?h1
          = Some (fst ?d, (?h1 @ ys)[rollsRef env := CellObj (totalRollsRef (snd ?d))])"
    by blast
  have u: "(?h1 @ ys)[rollsRef env := CellObj (totalRollsRef (snd ?d))]
         = (h @ (xs @ ys))[rollsRef env := CellObj (totalRollsRef (snd ?d))]"
    using holds_rollsRef_bound[OF Suc.prems] by (rule update_append_update)
  have P: "drawMany (Suc n) i rs c b ?st = (fst ?g # fst ?d, snd ?d)"
    by (simp add: split_beta st1)
  have S: "drawManyStore (Suc n) i rs c b env h
         = Some (fst ?g # fst ?d, (h @ (xs @ ys))[rollsRef env := CellObj (totalRollsRef (snd ?d))])"
    using g d u by simp
  show ?case unfolding S P by (intro exI[of _ "xs @ ys"]) simp
qed

lemma successes_eq_ex: "map the (filter (\<lambda>item. \<exists>y. item = Some y) items) = successes items"
  unfolding successes_def by (induction items) (auto split: option.splits)

lemma tableStore_correct:
  "readEntries h as = Some es \<Longrightarrow>
   tableStore env h table as
     = Some (foldl (\<lambda>table entry. table(name entry \<mapsto> toPercentage (weight entry) (poolSumMemo env)))
               table es)"
  by (induction as arbitrary: es table) (auto split: Option.bind_splits)

lemma getLootChances_store_pool_only:
  assumes "poolOf env h = Some p" and "poolSumMemo env = poolSum p"
  shows "getLootChances_store env h = Some (getLootChances p)"
proof -
  from assms(1) obtain ea as where pool: "poolEntriesRef env h = Some ea" "readArray h ea = Some as"
    "readEntries h as = Some (entries p)"
    unfolding poolOf_Some_iff poolEntriesRef_Some_iff by blast
  show ?thesis
    using pool(1,2) tableStore_correct[OF pool(3), of env Map.empty] assms(2)
    by (simp add: getLootChances_store_def getLootChances_def toPercentageChance_def)
qed

lemma getLootChances_store_refines:
  "holds env h p k \<Longrightarrow> getLootChances_store env h = Some (getLootChances p)"
  by (simp add: holds_def getLootChances_store_pool_only)

lemma getLoots_store_refines:
  assumes "holds env h p k"
  shows "\<exists>xs. getLoots_store env h opts r0 rs
           = Some (case getLoots \<lparr> pool = p, totalRollsRef = k \<rparr> opts r0 rs of
                     Inl e \<Rightarrow> (Inl e, h)
                   | Inr (items, st') \<Rightarrow>
                       (Inr items, (h @ xs)[rollsRef env := CellObj (totalRollsRef st')]))"
proof -
  let ?st = "\<lparr> pool = p, totalRollsRef = k \<rparr>"
  from configOf_SomeD[OF holds_configOf[OF assms, of "chestTypeOf opts"]] obtain cfg where
    cfg: "configRef env h (chestTypeOf opts) = Some cfg"
      "maxRollsAt h cfg = Some (maxRolls (CHEST_CONFIGS (chestTypeOf opts)))"
    by blast
  have S: "getLoots_store env h opts r0 rs =
     (if maxRollsOf opts \<le> 0 then Some (Inr [], h)
      else if \<not> validArrayLength (finalCount opts r0) then Some (Inl RangeError, h)
      else do { (items, h') \<leftarrow> drawManyStore (nat \<lfloor>finalCount opts r0\<rfloor>) 0 rs (chestTypeOf opts)
                                 (rarityBoostOf opts) env h;
                Some (Inr (successes items), h') })"
    using cfg unfolding getLoots_store_def maxRollsOf_def finalCount_def
    by (simp add: successes_eq_ex)
  show ?thesis
  proof (cases "maxRollsOf opts \<le> 0 \<or> \<not> validArrayLength (finalCount opts r0)")
    case True
    then show ?thesis
      using same_cell[OF assms] unfolding S by (intro exI[of _ "[]"]) (auto simp: getLoots_unfold)
  next
    case False
    from drawManyStore_refines[OF assms, of "nat \<lfloor>finalCount opts r0\<rfloor>" 0 rs "chestTypeOf opts"
        "rarityBoostOf opts"]
    obtain xs where d: "drawManyStore (nat \<lfloor>finalCount opts r0\<rfloor>) 0 rs (chestTypeOf opts)
           (rarityBoostOf opts) env h
         = Some (fst (drawMany (nat \<lfloor>finalCount opts r0\<rfloor>) 0 rs (chestTypeOf opts)
                        (rarityBoostOf opts) ?st),
                 (h @ xs)[rollsRef env := CellObj (totalRollsRef (snd (drawMany
                     (nat \<lfloor>finalCount opts r0\<rfloor>) 0 rs (chestTypeOf opts) (rarityBoostOf opts) ?st)))])"
      by blast
    show ?thesis
      using False unfolding S by (intro exI[of _ xs]) (simp add: d getLoots_unfold)
  qed
qed

lemma getLoots_counter_mono:
  "getLoots st opts r0 rs = Inr (items, st') \<Longrightarrow> totalRollsRef st \<le> totalRollsRef st'"
  using drawMany_counter_mono[of st "nat \<lfloor>finalCount opts r0\<rfloor>" 0 rs "chestTypeOf opts" "rarityBoostOf opts"]
  by (auto simp: getLoots_unfold split: if_splits)

lemma exec_step:
  assumes "holds env h p k"
  shows "\<exists>xs k'. exec env h call = Some ((h @ xs)[rollsRef env := CellObj k']) \<and> k \<le> k'"
proof (cases call)
  case GetLootChances
  then have "exec env h call = Some ((h @ [])[rollsRef env := CellObj k])"
    using getLootChances_store_refines[OF assms] same_cell[OF assms] by simp
  then show ?thesis by blast
next
  case (GetLoot c b r)
  from getLoot_store_refines[OF assms, of c b r] obtain xs where
    "getLoot_store env h c b r
       = Some (fst (getLoot \<lparr> pool = p, totalRollsRef = k \<rparr> c b r),
               (h @ xs)[rollsRef env :=
                  CellObj (totalRollsRef (snd (getLoot \<lparr> pool = p, totalRollsRef = k \<rparr> c b r)))])"
    by blast
  then have "exec env h call = Some ((h @ xs)[rollsRef env :=
                  CellObj (totalRollsRef (snd (getLoot \<lparr> pool = p, totalRollsRef = k \<rparr> c b r)))])"
    using GetLoot by simp
  moreover have "k \<le> totalRollsRef (snd (getLoot \<lparr> pool = p, totalRollsRef = k \<rparr> c b r))"
    using getLoot_counter_mono[of "\<lparr> pool = p, totalRollsRef = k \<rparr>" c b r] by simp
  ultimately show ?thesis by blast
next
  case (GetLoots opts r0 rs)
  let ?st = "\<lparr> pool = p, totalRollsRef = k \<rparr>"
  from getLoots_store_refines[OF assms, of opts r0 rs] obtain xs where
    g: "getLoots_store env h opts r0 rs
           = Some (case getLoots ?st opts r0 rs of
                     Inl e \<Rightarrow> (Inl e, h)
                   | Inr (items, st') \<Rightarrow>
                       (Inr items, (h @ xs)[rollsRef env := CellObj (totalRollsRef st')]))"
    by blast
  show ?thesis
  proof (cases "getLoots ?st opts r0 rs")
    case (Inl e)
    then have "exec env h call = Some ((h @ [])[rollsRef env := CellObj k])"
      using g GetLoots same_cell[OF assms] by simp
    then show ?thesis by blast
  next
    case (Inr res)
    obtain items st' where res: "res = (items, st')" by (cases res)
    have "exec env h call = Some ((h @ xs)[rollsRef env := CellObj (totalRollsRef st')])"
      using g GetLoots Inr res by simp
    moreover have "k \<le> totalRollsRef st'"
      using getLoots_counter_mono[of ?st opts r0 rs items st'] Inr res by simp
    ultimately show ?thesis by blast
  qed
next
  case GetRollCount
  have "getRollCount_store env h = Some k" using assms by (simp add: getRollCount_store_def holds_def)
  then have "exec env h call = Some ((h @ [])[rollsRef env := CellObj k])"
    using GetRollCount same_cell[OF assms] by simp
  then show ?thesis by blast
qed

lemma run_steps:
  assumes "holds env h p k"
  shows "\<exists>xs k'. run env h calls = Some ((h @ xs)[rollsRef env := CellObj k']) \<and> k \<le> k'"
  using assms
proof (induction calls arbitrary: h k)
  case Nil
  have "run env h [] = Some ((h @ [])[rollsRef env := CellObj k])"
    using same_cell[OF Nil] by simp
  then show ?case by blast
next
  case (Cons call calls)
  from exec_step[OF Cons.prems, of call] obtain xs k1 where
    e: "exec env h call = Some ((h @ xs)[rollsRef env := CellObj k1])" "k \<le> k1" by blast
  let ?h1 = "(h @ xs)[rollsRef env := CellObj k1]"
  have h1: "holds env ?h1 p k1" using Cons.prems by (rule holds_step)
  from Cons.IH[OF h1] obtain ys k2 where
    r: "run env ?h1 calls = Some ((?h1 @ ys)[rollsRef env := CellObj k2])" "k1 \<le> k2" by blast
  have "(?h1 @ ys)[rollsRef env := CellObj k2] = (h @ (xs @ ys))[rollsRef env := CellObj k2]"
    using holds_rollsRef_bound[OF Cons.prems] by (rule update_append_update)
  then have "run env h (call # calls) = Some ((h @ (xs @ ys))[rollsRef env := CellObj k2])"
    using e(1) r(1) by simp
  moreover have "k \<le> k2" using e(2) r(2) by simp
  ultimately show ?case by blast
qed

lemma readEntries_loaded:
  "readEntries (pre @ map (\<lambda>e. EntryObj (name e) (weight e)) es @ rest)
     [length pre..<length pre + length es] = Some es"
proof (induction es arbitrary: pre)
  case Nil
  then show ?case by simp
next
  case (Cons e es)
  let ?mk = "\<lambda>e. EntryObj (name e) (weight e)"
  let ?h = "pre @ map ?mk (e # es) @ rest"
  have h: "?h = (pre @ [?mk e]) @ map ?mk es @ rest" by simp
  have u: "[length pre..<length pre + length (e # es)]
         = length pre # [length (pre @ [?mk e])..<length (pre @ [?mk e]) + length es]"
    by (simp add: upt_conv_Cons del: upt_Suc)
  have "readEntry ?h (length pre) = Some e"
    using readEntry_new[of pre "name e" "weight e"] by simp
  moreover have "readEntries ?h [length (pre @ [?mk e])..<length (pre @ [?mk e]) + length es] = Some es"
    unfolding h by (rule Cons.IH)
  ultimately show ?case unfolding u by (simp del: upt_Suc)
qed

lemma load_holds: "holds (fst (load p)) (snd (load p)) p 0"
proof -
  let ?n = "length (entries p)"
  let ?h = "snd (load p)"
  let ?env = "fst (load p)"
  have len: "length ?h = ?n + 12" by (simp add: load_def Let_def chestObjects_def)
  let ?tail = "[EntriesObj [0..<?n], PoolObj (poolName p) ?n] @ chestObjects (?n + 2) @ [CellObj 0]"
  have l: "lookup ?h a = Some (?tail ! (a - ?n))" if "?n \<le> a" "a < ?n + 12" for a
    using that len by (simp add: lookup_def) (simp add: load_def Let_def nth_append)
  have r: "readEntries ?h [0..<?n] = Some (entries p)"
    using readEntries_loaded[of "[]" "entries p"] by (simp add: load_def Let_def)
  have pool: "poolOf ?env ?h = Some p"
    unfolding poolOf_Some_iff readArray_Some_iff
    using l[of "?n + 1"] l[of ?n] r by (auto simp: load_def Let_def)
  have env: "poolRef ?env = ?n + 1" "chestsRef ?env = ?n + 10" "rollsRef ?env = ?n + 11"
    "poolSumMemo ?env = poolSum p"
    by (simp_all add: load_def Let_def)
  have cfg: "configOf ?env ?h c = Some (CHEST_CONFIGS c)" for c
    by (cases c)
      (simp_all add: configOf_def configRef_def excludeRef_def readStrings_def maxRollsAt_def
        overridesRef_def readOverrides_def env l chestObjects_def)
  have cell: "readCell ?h (rollsRef ?env) = Some 0"
    by (simp add: readCell_def env l chestObjects_def)
  show ?thesis using pool env(4) cfg cell by (simp add: holds_def)
qed

lemma getLoots_pool: "getLoots st opts r0 rs = Inr (items, st') \<Longrightarrow> pool st' = pool st"
  using drawMany_pool[of "nat \<lfloor>finalCount opts r0\<rfloor>" 0 rs "chestTypeOf opts" "rarityBoostOf opts" st]
  by (auto simp: getLoots_unfold split: if_splits)


section \<open>Single draw: weighted selection\<close>




section \<open>Construction\<close>

text \<open>
  Claim C2. Constructing a roller from a pool throws exactly when the sum of the pool's
  entry weights exceeds the base weight 10000, and the error carries that sum; for every
  pool whose sum is at most 10000, strictly below included, construction returns a
  roller on that pool with the counter at 0. (The code throws a plain \<open>Error\<close>; the
  specification calls it a ConfigurationError.)
\<close>

theorem useLoot_error_iff:
  "(useLoot p = Inl (Error (sum_list (map weight (entries p))) 10000)
      \<longleftrightarrow> 10000 < sum_list (map weight (entries p)))
   \<and> (useLoot p = Inr \<lparr> pool = p, totalRollsRef = 0 \<rparr>
      \<longleftrightarrow> sum_list (map weight (entries p)) \<le> 10000)
   \<and> ((\<exists>e. useLoot p = Inl e) \<longleftrightarrow> 10000 < sum_list (map weight (entries p)))"
  by (auto simp: useLoot_def poolSum_sum_list POOL_BASE_WEIGHT_def)

theorem useLoot_error_iff_witness:
  "useLoot rarityPool = Inr \<lparr> pool = rarityPool, totalRollsRef = 0 \<rparr>
   \<and> useLoot \<lparr> poolName = ''light'', entries = [\<lparr> name = ''common'', weight = 5 \<rparr>] \<rparr>
       = Inr \<lparr> pool = \<lparr> poolName = ''light'', entries = [\<lparr> name = ''common'', weight = 5 \<rparr>] \<rparr>,
               totalRollsRef = 0 \<rparr>
   \<and> useLoot \<lparr> poolName = ''heavy'', entries = [\<lparr> name = ''common'', weight = 10001 \<rparr>] \<rparr>
       = Inl (Error 10001 10000)"
  using useLoot_error_iff[of rarityPool]
    useLoot_error_iff[of "\<lparr> poolName = ''light'', entries = [\<lparr> name = ''common'', weight = 5 \<rparr>] \<rparr>"]
    useLoot_error_iff[of "\<lparr> poolName = ''heavy'', entries = [\<lparr> name = ''common'', weight = 10001 \<rparr>] \<rparr>"]
  by (simp add: rarityPool_def)


section \<open>The odds table\<close>





section \<open>The roll counter\<close>




section \<open>Batch draws\<close>





section \<open>Exclusions\<close>

text \<open>
  Claim C6. For every roller, chest type, rarity boost and random value, a name returned
  by \<open>getLoot\<close> is not in the chest's exclusion list and is the name of an entry of the
  pool that the chest does not exclude; on the standard pool the epic chest never
  returns \<open>common\<close>, \<open>uncommon\<close> or \<open>rare\<close>.
\<close>

theorem getLoot_respects_exclusions:
  "(fst (getLoot st chestType rarityBoost r) = Some n \<longrightarrow>
      n \<notin> set (excludeRarities (CHEST_CONFIGS chestType))
      \<and> (\<exists>e \<in> set (entries (pool st)).
            name e = n \<and> name e \<notin> set (excludeRarities (CHEST_CONFIGS chestType))))
   \<and> fst (getLoot \<lparr> pool = rarityPool, totalRollsRef = k \<rparr> epic rarityBoost r)
        \<notin> {Some ''common'', Some ''uncommon'', Some ''rare''}"
proof -
  have A: "n \<notin> set (excludeRarities (CHEST_CONFIGS c))
      \<and> (\<exists>e \<in> set (entries (pool s)). name e = n \<and> name e \<notin> set (excludeRarities (CHEST_CONFIGS c)))"
    if "fst (getLoot s c b x) = Some n" for s c b x n
    using getLoot_Some_filtered[OF that] by (auto simp: filterEntries_def)
  have B: "fst (getLoot \<lparr> pool = rarityPool, totalRollsRef = k \<rparr> epic rarityBoost r) \<noteq> Some n"
    if "n \<in> {''common'', ''uncommon'', ''rare''}" for n
  proof
    assume "fst (getLoot \<lparr> pool = rarityPool, totalRollsRef = k \<rparr> epic rarityBoost r) = Some n"
    from A[OF this] that show False by auto
  qed
  show ?thesis using A B by auto
qed

theorem getLoot_respects_exclusions_witness:
  "fst (getLoot \<lparr> pool = rarityPool, totalRollsRef = 0 \<rparr> epic 1 (65 / 100)) = Some ''epic''
   \<and> ''epic'' \<notin> set (excludeRarities (CHEST_CONFIGS epic))
   \<and> (\<exists>e \<in> set (entries (pool \<lparr> pool = rarityPool, totalRollsRef = 0 \<rparr>)).
         name e = ''epic'' \<and> name e \<notin> set (excludeRarities (CHEST_CONFIGS epic)))"
proof -
  have v: "fst (getLoot \<lparr> pool = rarityPool, totalRollsRef = 0 \<rparr> epic 1 (65 / 100)) = Some ''epic''"
    by (simp add: getLoot_def pool_eval)
  from getLoot_respects_exclusions[of "\<lparr> pool = rarityPool, totalRollsRef = 0 \<rparr>" epic 1 "65 / 100"
      "''epic''"] v
  show ?thesis by simp
qed


section \<open>Weight adjustment\<close>




section \<open>Empty results\<close>




section \<open>No operation mutates the pool or a chest configuration\<close>

text \<open>
  Claim C9. Take any store that holds a pool \<open>p\<close>, the chest configurations of the
  program and a counter \<open>k\<close>; the store built at construction is one. Then every
  sequence of \<open>getLootChances\<close>, \<open>getLoot\<close>, \<open>getLoots\<close> and \<open>getRollCount\<close> calls runs to
  a store in which the pool is still \<open>p\<close>, with the same entries of the same names and
  weights in the same order, the three chest configurations are still those of the
  program, and every object that existed before, other than the counter cell, is the
  very same object; the counter cell holds a value that is at least \<open>k\<close>. The calls
  create new arrays and new entry objects, which only extend the store, and a draw on
  the store returns the name that the draw of the model without a store returns. In the
  model without a store the same reads: the roller returned by \<open>getLoot\<close>, by a sequence of
  \<open>getLoot\<close> calls and by \<open>getLoots\<close> has the pool of the roller it was called on.
\<close>

theorem pool_and_configs_never_mutated:
  "(holds env h p k \<longrightarrow>
      (\<exists>h' k'. run env h calls = Some h'
         \<and> poolOf env h' = Some p
         \<and> configOf env h' normal = Some (CHEST_CONFIGS normal)
         \<and> configOf env h' rare = Some (CHEST_CONFIGS rare)
         \<and> configOf env h' epic = Some (CHEST_CONFIGS epic)
         \<and> readCell h' (rollsRef env) = Some k' \<and> k \<le> k'
         \<and> length h \<le> length h'
         \<and> (\<forall>a<length h. a \<noteq> rollsRef env \<longrightarrow> h' ! a = h ! a)))
   \<and> holds (fst (load p)) (snd (load p)) p 0
   \<and> (holds env h p k \<longrightarrow>
        (\<exists>h'. getLoot_store env h chestType rarityBoost r
                = Some (fst (getLoot \<lparr> pool = p, totalRollsRef = k \<rparr> chestType rarityBoost r), h')))
   \<and> pool (snd (getLoot st chestType rarityBoost r)) = pool st
   \<and> pool (snd (getLootCalls st lootCalls)) = pool st
   \<and> (\<forall>items st'. getLoots st opts r0 rs = Inr (items, st') \<longrightarrow> pool st' = pool st)"
proof -
  have A: "\<exists>h' k'. run env h calls = Some h'
         \<and> poolOf env h' = Some p
         \<and> configOf env h' normal = Some (CHEST_CONFIGS normal)
         \<and> configOf env h' rare = Some (CHEST_CONFIGS rare)
         \<and> configOf env h' epic = Some (CHEST_CONFIGS epic)
         \<and> readCell h' (rollsRef env) = Some k' \<and> k \<le> k'
         \<and> length h \<le> length h'
         \<and> (\<forall>a<length h. a \<noteq> rollsRef env \<longrightarrow> h' ! a = h ! a)"
    if H: "holds env h p k"
  proof -
    from run_steps[OF H, of calls] obtain xs k' where
      r: "run env h calls = Some ((h @ xs)[rollsRef env := CellObj k'])" "k \<le> k'" by blast
    let ?h' = "(h @ xs)[rollsRef env := CellObj k']"
    have H': "holds env ?h' p k'" using H by (rule holds_step)
    have "length h \<le> length ?h'" by simp
    moreover have "\<forall>a<length h. a \<noteq> rollsRef env \<longrightarrow> ?h' ! a = h ! a"
      by (simp add: nth_append)
    ultimately show ?thesis using r H' unfolding holds_def by blast
  qed
  have B: "\<exists>h'. getLoot_store env h chestType rarityBoost r
                = Some (fst (getLoot \<lparr> pool = p, totalRollsRef = k \<rparr> chestType rarityBoost r), h')"
    if H: "holds env h p k"
    using getLoot_store_refines[OF H, of chestType rarityBoost r] by blast
  show ?thesis
    using A B load_holds getLoot_pool getLootCalls_pool getLoots_pool by blast
qed

theorem pool_and_configs_never_mutated_witness:
  "holds (fst (load rarityPool)) (snd (load rarityPool)) rarityPool 0
   \<and> (\<exists>h' k'. run (fst (load rarityPool)) (snd (load rarityPool)) sampleCalls = Some h'
         \<and> poolOf (fst (load rarityPool)) h' = Some rarityPool
         \<and> configOf (fst (load rarityPool)) h' rare = Some (CHEST_CONFIGS rare)
         \<and> readCell h' (rollsRef (fst (load rarityPool))) = Some k')"
proof -
  have H: "holds (fst (load rarityPool)) (snd (load rarityPool)) rarityPool 0"
    using pool_and_configs_never_mutated[of _ _ rarityPool] by blast
  from pool_and_configs_never_mutated[of "fst (load rarityPool)" "snd (load rarityPool)" rarityPool 0
      sampleCalls] H
  show ?thesis by blast
qed


section \<open>The two implementations\<close>

text \<open>
  Claim C10. On every roller and every random value, \<open>getLoot()\<close> of the simple
  implementation returns the same name and the same roller as
  \<open>getLoot("normal", 1)\<close> of the chest-aware one, and the \<open>getLootChances\<close> of the two
  implementations are the same table on every pool.
\<close>

theorem simple_agrees:
  "getLoot_simple st r = getLoot st normal 1 r \<and> getLootChances_simple p = getLootChances p"
  by (simp add: getLoot_unfold getLoot_simple_def adjustedEntries_normal_1 localSum_def
      poolSum_sum_list getLootChances_simple_def getLootChances_def toPercentageChance_def Let_def)


end
